theory Spec2Isabelle
  imports Main
begin

section \<open>Expression trees\<close>

text \<open>
  Modelled from the spec: the expression tree (\<^verbatim>\<open>exp.h\<close> is not among the sources;
  \<^verbatim>\<open>parser.c\<close> only calls its constructors). The node variants are those of the spec's data
  model, one constructor per factory function the parser calls, under the name the parser
  calls it by:
  \<^item> \<open>NewIntegerExp\<close> is the spec's Integer(value),
  \<^item> \<open>NewIdentifierExp\<close> is Identifier(name),
  \<^item> \<open>NewCompoundExp\<close> is BinaryOp(operator, left, right); the operator is one C \<^verbatim>\<open>char\<close>,
  \<^item> \<open>NewCallExp\<close> is Call(callee, argument),
  \<^item> \<open>NewFuncExp\<close> is FuncLiteral(parameter-name, body),
  \<^item> \<open>NewIfExp\<close> is Conditional(left, relational-operator, right, then, else).
\<close>

datatype exp =
    NewIntegerExp int
  | NewIdentifierExp string
  | NewCompoundExp char exp exp
  | NewCallExp exp exp
  | NewFuncExp string exp
  | NewIfExp exp string exp exp exp

text \<open>
  Modelled from the spec: \<^verbatim>\<open>GetCallExp\<close> (declared in the absent \<^verbatim>\<open>exp.h\<close>) is applied by
  \<^verbatim>\<open>ReadC\<close> to the atom before it becomes the callee; the spec's Call node has the atom itself
  as callee, so the helper hands back the expression it is given.
\<close>

definition GetCallExp :: "exp \<Rightarrow> exp" where
  "GetCallExp e = e"

section \<open>Errors\<close>

text \<open>
  \<^verbatim>\<open>Error(msg)\<close> unwinds to the \<^verbatim>\<open>try\<close> block of \<^verbatim>\<open>main\<close>. Each message of the parser is one
  constructor, and so is each failure of the two library routines the parser relies on:
  \<^item> \<open>IllegalTerm\<close>: \<^verbatim>\<open>Error("Illegal term in expression")\<close> in \<^verbatim>\<open>ReadF\<close>,
  \<^item> \<open>MalformedConditional\<close>: \<^verbatim>\<open>Error("Syntactical error in 'If' statement!")\<close> in
    \<^verbatim>\<open>ReadControlStructure\<close>,
  \<^item> \<open>TokenAlreadySaved\<close>: the token source refuses a second token in its pushback slot,
  \<^item> \<open>IllegalNumber\<close>: \<^verbatim>\<open>StringToInteger\<close> refuses a text that is not a number.
\<close>

datatype error = IllegalTerm | MalformedConditional | TokenAlreadySaved | IllegalNumber

section \<open>The token source\<close>

text \<open>
  Modelled from the spec: the scanner (\<^verbatim>\<open>scanadt.h\<close> is not among the sources). The spec
  describes a token source that supplies the next token on demand, represents the end of the
  input by the empty token, and holds a pushback slot of at most one token. Its state is the
  list of the tokens of the line not yet read, and the slot.
\<close>

record scannerADT =
  tokens :: "string list"
  savedToken :: "string option"

text \<open>The character classes of \<^verbatim>\<open>ctype.h\<close> in the C locale.\<close>

definition isdigit :: "char \<Rightarrow> bool" where
  "isdigit c = (c \<in> set ''0123456789'')"

definition isalpha :: "char \<Rightarrow> bool" where
  "isalpha c = (c \<in> set ''abcdefghijklmnopqrstuvwxyzABCDEFGHIJKLMNOPQRSTUVWXYZ'')"

definition isalnum :: "char \<Rightarrow> bool" where
  "isalnum c = (isalpha c \<or> isdigit c)"

definition isspace :: "char \<Rightarrow> bool" where
  "isspace c = (c \<in> set [CHR '' '', CHR 0x09, CHR 0x0A, CHR 0x0B, CHR 0x0C, CHR 0x0D])"

text \<open>
  Modelled from the spec: the tokens of a line. A token is an integer literal text or an
  identifier or keyword text (a run of letters and digits), or a single character of
  punctuation; \<^verbatim>\<open>main\<close> sets the scanner to ignore spaces.
\<close>

function tokenize :: "string \<Rightarrow> string list" where
  "tokenize [] = []"
| "tokenize (c # cs) =
     (if isspace c then tokenize cs
      else if isalnum c then (c # takeWhile isalnum cs) # tokenize (dropWhile isalnum cs)
      else [c] # tokenize cs)"
  by pat_completeness auto
termination
  by (relation "measure length") (auto simp: length_dropWhile_le less_Suc_eq_le)

text \<open>Modelled from the spec: \<^verbatim>\<open>SetScannerString\<close> starts a line with an empty pushback slot.\<close>

definition SetScannerString :: "string \<Rightarrow> scannerADT" where
  "SetScannerString line = \<lparr>tokens = tokenize line, savedToken = None\<rparr>"

text \<open>Modelled from the spec: \<^verbatim>\<open>ReadToken\<close> gives the saved token if there is one (and empties
  the slot), else the next token of the line, else the empty token.\<close>

definition ReadToken :: "scannerADT \<Rightarrow> string \<times> scannerADT" where
  "ReadToken scanner =
     (case savedToken scanner of
        Some token \<Rightarrow> (token, scanner\<lparr>savedToken := None\<rparr>)
      | None \<Rightarrow>
          (case tokens scanner of
             [] \<Rightarrow> ([], scanner)
           | token # rest \<Rightarrow> (token, scanner\<lparr>tokens := rest\<rparr>)))"

section \<open>Results of the parsing routines\<close>

text \<open>
  A routine returns a value and leaves the scanner in a new state, or raises an error.
  The routines call each other recursively; the model bounds the depth of the calls by a
  number, and \<open>OutOfFuel\<close> is the answer of a call that would exceed it.
\<close>

datatype 'a result = Returns 'a scannerADT | Raises error | OutOfFuel

definition andThen :: "'a result \<Rightarrow> ('a \<Rightarrow> scannerADT \<Rightarrow> 'b result) \<Rightarrow> 'b result" where
  "andThen r f = (case r of Returns a scanner \<Rightarrow> f a scanner | Raises e \<Rightarrow> Raises e | OutOfFuel \<Rightarrow> OutOfFuel)"

text \<open>Modelled from the spec: \<^verbatim>\<open>SaveToken\<close> fills the pushback slot; the slot holds at most one
  token, so pushing back onto an occupied slot is an error.\<close>

definition SaveToken :: "scannerADT \<Rightarrow> string \<Rightarrow> unit result" where
  "SaveToken scanner token =
     (case savedToken scanner of
        Some _ \<Rightarrow> Raises TokenAlreadySaved
      | None \<Rightarrow> Returns () (scanner\<lparr>savedToken := Some token\<rparr>))"

text \<open>\<^verbatim>\<open>token[0]\<close>: the first character of a C string; the terminating NUL for the empty one.\<close>

definition char0 :: "string \<Rightarrow> char" where
  "char0 token = (case token of [] \<Rightarrow> CHR 0x00 | c # _ \<Rightarrow> c)"

text \<open>
  Modelled from the spec: \<^verbatim>\<open>StringToInteger\<close> (\<^verbatim>\<open>strlib.h\<close> is not among the sources) gives the
  value of an integer literal text. A text with a character that is not a digit is not a
  number. The value is not bounded here (the C \<^verbatim>\<open>int\<close> it is stored in is).
\<close>

definition digit_val :: "char \<Rightarrow> int" where
  "digit_val c = int (of_char c) - 48"

definition decimal_value :: "string \<Rightarrow> int" where
  "decimal_value s = foldl (\<lambda>acc c. 10 * acc + digit_val c) 0 s"

definition StringToInteger :: "string \<Rightarrow> int option" where
  "StringToInteger s =
     (if s \<noteq> [] \<and> list_all isdigit s then Some (decimal_value s) else None)"

section \<open>The parser\<close>

text \<open>
  The routines of \<^verbatim>\<open>parser.c\<close>. Each takes the depth left for its calls first; the scanner
  is passed in and handed back. \<^verbatim>\<open>ReadE(scanner, 0)\<close> in \<^verbatim>\<open>ReadC\<close> is the one-parameter
  \<^verbatim>\<open>ReadE\<close>: the second argument is not read.
\<close>

definition ReadArguments :: "scannerADT \<Rightarrow> string \<times> scannerADT" where
  "ReadArguments scanner = ReadToken scanner"

fun ReadE :: "nat \<Rightarrow> scannerADT \<Rightarrow> exp result"
  and ReadT :: "nat \<Rightarrow> scannerADT \<Rightarrow> exp result"
  and ReadC :: "nat \<Rightarrow> scannerADT \<Rightarrow> exp result"
  and ReadF :: "nat \<Rightarrow> scannerADT \<Rightarrow> exp result"
  and ReadNewFunc :: "nat \<Rightarrow> scannerADT \<Rightarrow> exp result"
  and ReadControlStructure :: "nat \<Rightarrow> scannerADT \<Rightarrow> exp result"
where
  "ReadE 0 scanner = OutOfFuel"
| "ReadE (Suc n) scanner =
     andThen (ReadT n scanner) (\<lambda>exp s1.
       let (token, s2) = ReadToken s1 in
       if token = ''+'' \<or> token = ''-''
       then andThen (ReadE n s2) (\<lambda>rhs s3. Returns (NewCompoundExp (char0 token) exp rhs) s3)
       else Returns exp s2)"
| "ReadT 0 scanner = OutOfFuel"
| "ReadT (Suc n) scanner =
     andThen (ReadC n scanner) (\<lambda>exp s1.
       let (token, s2) = ReadToken s1 in
       if token = ''*'' \<or> token = ''/''
       then andThen (ReadT n s2) (\<lambda>rhs s3. Returns (NewCompoundExp (char0 token) exp rhs) s3)
       else andThen (SaveToken s2 token) (\<lambda>_ s3. Returns exp s3))"
| "ReadC 0 scanner = OutOfFuel"
| "ReadC (Suc n) scanner =
     andThen (ReadF n scanner) (\<lambda>exp s1.
       let (token, s2) = ReadToken s1 in
       if token = ''(''
       then andThen (ReadE n s2) (\<lambda>arg s3. Returns (NewCallExp (GetCallExp exp) arg) s3)
       else andThen (SaveToken s2 token) (\<lambda>_ s3. Returns exp s3))"
| "ReadF 0 scanner = OutOfFuel"
| "ReadF (Suc n) scanner =
     (let (token, s1) = ReadToken scanner in
      if token = ''(''
      then andThen (ReadE n s1) (\<lambda>exp s2. Returns exp (snd (ReadToken s2)))
      else if isdigit (char0 token)
      then (case StringToInteger token of
              None \<Rightarrow> Raises IllegalNumber
            | Some v \<Rightarrow> Returns (NewIntegerExp v) s1)
      else if isalpha (char0 token)
      then (if token = ''func'' then ReadNewFunc n s1
            else if token = ''if'' then ReadControlStructure n s1
            else Returns (NewIdentifierExp token) s1)
      else Raises IllegalTerm)"
| "ReadNewFunc 0 scanner = OutOfFuel"
| "ReadNewFunc (Suc n) scanner =
     (let s1 = snd (ReadToken scanner);
          (arg, s2) = ReadArguments s1;
          s3 = snd (ReadToken s2);
          s4 = snd (ReadToken s3)
      in andThen (ReadE n s4) (\<lambda>body s5.
           let s6 = snd (ReadToken s5);
               exp = NewFuncExp arg body;
               s7 = snd (ReadToken s6)
           in Returns exp s7))"
| "ReadControlStructure 0 scanner = OutOfFuel"
| "ReadControlStructure (Suc n) scanner =
     (let (token, s1) = ReadToken scanner;
          s2 = (if token = ''if'' then snd (ReadToken s1) else s1)
      in andThen (ReadE n s2) (\<lambda>expPre s3.
           let (relOp, s4) = ReadToken s3 in
           andThen (ReadE n s4) (\<lambda>expPost s5.
             let (thenKeyWord, s6) = ReadToken s5 in
             if thenKeyWord \<noteq> ''then'' then Raises MalformedConditional
             else andThen (ReadE n s6) (\<lambda>expThen s7.
               let (elseKeyWord, s8) = ReadToken s7 in
               if elseKeyWord \<noteq> ''else'' then Raises MalformedConditional
               else andThen (ReadE n s8) (\<lambda>expElse s9.
                 Returns (NewIfExp expPre relOp expPost expThen expElse) s9)))))"

text \<open>\<^verbatim>\<open>CheckCommandToken\<close>: the command word of a line that starts with a colon, else the
  empty string, with the first token pushed back.\<close>

definition CheckCommandToken :: "scannerADT \<Rightarrow> string result" where
  "CheckCommandToken scanner =
     (let (token, s1) = ReadToken scanner in
      if char0 token \<noteq> CHR '':''
      then andThen (SaveToken s1 token) (\<lambda>_ s2. Returns [] s2)
      else (let (token2, s2) = ReadToken s1 in Returns (token @ token2) s2))"

text \<open>\<^verbatim>\<open>ReadCommand\<close>: \<^verbatim>\<open>id\<close> of the source is \<open>ident\<close> here; \<^verbatim>\<open>op[0]\<close> is the node's operator.\<close>

definition ReadCommand :: "nat \<Rightarrow> scannerADT \<Rightarrow> string \<Rightarrow> exp result" where
  "ReadCommand n scanner command =
     (if command = '':define''
      then (let (ident, s1) = ReadToken scanner;
                (op, s2) = ReadToken s1
            in andThen (ReadE n s2) (\<lambda>val s3.
                 Returns (NewCompoundExp (char0 op) (NewIdentifierExp ident) val) s3))
      else if command = '':load''
      then Returns (NewIdentifierExp '':load'') scanner
      else Returns (NewIdentifierExp command) scanner)"

text \<open>\<^verbatim>\<open>ParseExp\<close>: the empty command word selects a plain expression, any other a command.\<close>

definition ParseExp :: "nat \<Rightarrow> scannerADT \<Rightarrow> exp result" where
  "ParseExp n scanner =
     andThen (CheckCommandToken scanner) (\<lambda>command s1.
       if command = [] then ReadE n s1 else ReadCommand n s1 command)"

section \<open>Parsing one line\<close>

text \<open>
  The number of tokens the scanner can still deliver: the tokens of the line that are left,
  and the token in the pushback slot unless it is the empty token of the end of the input.
\<close>

definition avail :: "scannerADT \<Rightarrow> nat" where
  "avail scanner =
     length (tokens scanner) +
     (case savedToken scanner of None \<Rightarrow> 0 | Some [] \<Rightarrow> 0 | Some (c # cs) \<Rightarrow> 1)"

text \<open>
  The step of the loop of \<^verbatim>\<open>main\<close> that parses a line: \<^verbatim>\<open>SetScannerString(scanner, line)\<close>, then
  \<^verbatim>\<open>ParseExp(scanner)\<close>. The depth given to the parser is one that its calls never exceed
  (\<open>parse_line_total\<close> below), and more depth changes no answer (\<open>parse_line_eq\<close>).
\<close>

definition parse_line :: "string \<Rightarrow> exp result" where
  "parse_line line =
     (let scanner = SetScannerString line in ParseExp (5 * avail scanner + 4) scanner)"

section \<open>Operator chains\<close>

text \<open>
  Notions for stating how a chain \<open>a\<^sub>0 op\<^sub>1 a\<^sub>1 op\<^sub>2 a\<^sub>2 \<dots>\<close> of plain operands is grouped.
  A plain operand is a token that \<^verbatim>\<open>ReadF\<close> turns into a leaf: an integer literal, or an
  identifier other than the keywords \<^verbatim>\<open>func\<close> and \<^verbatim>\<open>if\<close>.
\<close>

definition is_atom :: "string \<Rightarrow> bool" where
  "is_atom token =
     (if isdigit (char0 token) then list_all isdigit token
      else isalpha (char0 token) \<and> token \<noteq> ''func'' \<and> token \<noteq> ''if'')"

definition atom_exp :: "string \<Rightarrow> exp" where
  "atom_exp token =
     (if isdigit (char0 token) then NewIntegerExp (decimal_value token)
      else NewIdentifierExp token)"

text \<open>The tokens \<open>op\<^sub>1 a\<^sub>1 op\<^sub>2 a\<^sub>2 \<dots>\<close> that follow the first operand.\<close>

fun chain_tokens :: "(string \<times> string) list \<Rightarrow> string list" where
  "chain_tokens [] = []"
| "chain_tokens ((opr, a) # rest) = opr # a # chain_tokens rest"

text \<open>The tree that groups the chain to the right: \<open>a\<^sub>0 op\<^sub>1 (a\<^sub>1 op\<^sub>2 (a\<^sub>2 \<dots>))\<close>.\<close>

fun right_nested :: "string \<Rightarrow> (string \<times> string) list \<Rightarrow> exp" where
  "right_nested a [] = atom_exp a"
| "right_nested a ((opr, b) # rest) =
     NewCompoundExp (char0 opr) (atom_exp a) (right_nested b rest)"

text \<open>A link \<open>(op, a)\<close> of an additive chain, and of a multiplicative chain.\<close>

definition additive :: "string \<times> string \<Rightarrow> bool" where
  "additive p = ((fst p = ''+'' \<or> fst p = ''-'') \<and> is_atom (snd p))"

definition multiplicative :: "string \<times> string \<Rightarrow> bool" where
  "multiplicative p = ((fst p = ''*'' \<or> fst p = ''/'') \<and> is_atom (snd p))"

section \<open>Properties of the parser\<close>

subsection \<open>Sequencing\<close>

lemma andThen_simps [simp]:
  "andThen (Returns a s) f = f a s"
  "andThen (Raises e) f = Raises e"
  "andThen OutOfFuel f = OutOfFuel"
  by (simp_all add: andThen_def)

lemma andThen_eq_Returns:
  "andThen r f = Returns b s' \<longleftrightarrow> (\<exists>a s. r = Returns a s \<and> f a s = Returns b s')"
  by (cases r) auto

lemma andThen_eq_OutOfFuel:
  "andThen r f = OutOfFuel \<longleftrightarrow> r = OutOfFuel \<or> (\<exists>a s. r = Returns a s \<and> f a s = OutOfFuel)"
  by (cases r) auto

subsection \<open>Reading and pushing back\<close>

lemma ReadToken_slot_empty: "savedToken (snd (ReadToken s)) = None"
  by (auto simp add: ReadToken_def split: option.splits list.splits)

lemma SaveToken_after_read:
  "SaveToken (snd (ReadToken s)) u = Returns () ((snd (ReadToken s))\<lparr>savedToken := Some u\<rparr>)"
  by (simp add: SaveToken_def ReadToken_slot_empty)

lemma ReadToken_avail: "avail (snd (ReadToken s)) \<le> avail s"
  by (auto simp: ReadToken_def avail_def split: option.splits list.splits)

lemma ReadToken_avail_strict: "fst (ReadToken s) \<noteq> [] \<Longrightarrow> avail (snd (ReadToken s)) < avail s"
  by (auto simp: ReadToken_def avail_def split: option.splits list.splits)

lemma read_save_avail: "avail ((snd (ReadToken s))\<lparr>savedToken := Some (fst (ReadToken s))\<rparr>) \<le> avail s"
  by (auto simp: ReadToken_def avail_def split: option.splits list.splits)

subsection \<open>Every parse that returns has consumed a token\<close>

text \<open>The conditional routine with its tuples opened, as the proofs below use it.\<close>

lemma ReadControlStructure_Suc:
  "ReadControlStructure (Suc n) s =
     andThen (ReadE n (if fst (ReadToken s) = ''if'' then snd (ReadToken (snd (ReadToken s)))
                       else snd (ReadToken s))) (\<lambda>expPre s3.
       andThen (ReadE n (snd (ReadToken s3))) (\<lambda>expPost s5.
         if fst (ReadToken s5) \<noteq> ''then'' then Raises MalformedConditional
         else andThen (ReadE n (snd (ReadToken s5))) (\<lambda>expThen s7.
           if fst (ReadToken s7) \<noteq> ''else'' then Raises MalformedConditional
           else andThen (ReadE n (snd (ReadToken s7))) (\<lambda>expElse s9.
             Returns (NewIfExp expPre (fst (ReadToken s3)) expPost expThen expElse) s9))))"
  by (simp add: Let_def split_def cong del: if_weak_cong)

lemma avail_decreases:
  "(\<forall>s e s'. ReadE n s = Returns e s' \<longrightarrow> avail s' < avail s) \<and>
   (\<forall>s e s'. ReadT n s = Returns e s' \<longrightarrow> avail s' < avail s) \<and>
   (\<forall>s e s'. ReadC n s = Returns e s' \<longrightarrow> avail s' < avail s) \<and>
   (\<forall>s e s'. ReadF n s = Returns e s' \<longrightarrow> avail s' < avail s) \<and>
   (\<forall>s e s'. ReadNewFunc n s = Returns e s' \<longrightarrow> avail s' < avail s) \<and>
   (\<forall>s e s'. ReadControlStructure n s = Returns e s' \<longrightarrow> avail s' < avail s)"
proof (induction n)
  case 0
  show ?case by simp
next
  case (Suc n)
  have E: "avail s' < avail s" if "ReadE (Suc n) s = Returns e s'" for s e s'
  proof -
    from that obtain x s1 where 1: "ReadT n s = Returns x s1"
      and 3: "(if fst (ReadToken s1) = ''+'' \<or> fst (ReadToken s1) = ''-''
               then andThen (ReadE n (snd (ReadToken s1))) (\<lambda>rhs s3. Returns (NewCompoundExp (char0 (fst (ReadToken s1))) x rhs) s3)
               else Returns x (snd (ReadToken s1))) = Returns e s'"
      by (auto simp: andThen_eq_Returns Let_def split_def)
    from 1 Suc have "avail s1 < avail s" by blast
    moreover have "avail (snd (ReadToken s1)) \<le> avail s1" by (rule ReadToken_avail)
    moreover from 3 Suc have "avail s' \<le> avail (snd (ReadToken s1))"
      by (auto simp: andThen_eq_Returns split: if_splits dest: less_imp_le)
    ultimately show ?thesis by linarith
  qed
  have T: "avail s' < avail s" if "ReadT (Suc n) s = Returns e s'" for s e s'
  proof -
    from that obtain x s1 where 1: "ReadC n s = Returns x s1"
      and 3: "(if fst (ReadToken s1) = ''*'' \<or> fst (ReadToken s1) = ''/''
               then andThen (ReadT n (snd (ReadToken s1))) (\<lambda>rhs s3. Returns (NewCompoundExp (char0 (fst (ReadToken s1))) x rhs) s3)
               else andThen (SaveToken (snd (ReadToken s1)) (fst (ReadToken s1))) (\<lambda>_ s3. Returns x s3)) = Returns e s'"
      by (auto simp: andThen_eq_Returns Let_def split_def)
    from 1 Suc have a: "avail s1 < avail s" by blast
    have b: "avail (snd (ReadToken s1)) \<le> avail s1" by (rule ReadToken_avail)
    show ?thesis
    proof (cases "fst (ReadToken s1) = ''*'' \<or> fst (ReadToken s1) = ''/''")
      case True
      with 3 Suc have "avail s' < avail (snd (ReadToken s1))" by (auto simp: andThen_eq_Returns)
      with a b show ?thesis by linarith
    next
      case False
      with 3 have "s' = (snd (ReadToken s1))\<lparr>savedToken := Some (fst (ReadToken s1))\<rparr>"
        by (auto simp: SaveToken_after_read)
      then have "avail s' \<le> avail s1" by (simp add: read_save_avail)
      with a show ?thesis by linarith
    qed
  qed
  have C: "avail s' < avail s" if "ReadC (Suc n) s = Returns e s'" for s e s'
  proof -
    from that obtain x s1 where 1: "ReadF n s = Returns x s1"
      and 3: "(if fst (ReadToken s1) = ''(''
               then andThen (ReadE n (snd (ReadToken s1))) (\<lambda>arg s3. Returns (NewCallExp (GetCallExp x) arg) s3)
               else andThen (SaveToken (snd (ReadToken s1)) (fst (ReadToken s1))) (\<lambda>_ s3. Returns x s3)) = Returns e s'"
      by (auto simp: andThen_eq_Returns Let_def split_def)
    from 1 Suc have a: "avail s1 < avail s" by blast
    have b: "avail (snd (ReadToken s1)) \<le> avail s1" by (rule ReadToken_avail)
    show ?thesis
    proof (cases "fst (ReadToken s1) = ''(''")
      case True
      with 3 Suc have "avail s' < avail (snd (ReadToken s1))" by (auto simp: andThen_eq_Returns)
      with a b show ?thesis by linarith
    next
      case False
      with 3 have "s' = (snd (ReadToken s1))\<lparr>savedToken := Some (fst (ReadToken s1))\<rparr>"
        by (auto simp: SaveToken_after_read)
      then have "avail s' \<le> avail s1" by (simp add: read_save_avail)
      with a show ?thesis by linarith
    qed
  qed
  have F: "avail s' < avail s" if "ReadF (Suc n) s = Returns e s'" for s e s'
  proof -
    have ne: "fst (ReadToken s) \<noteq> []"
      using that by (auto simp: char0_def isdigit_def isalpha_def Let_def split_def)
    then have a: "avail (snd (ReadToken s)) < avail s" by (rule ReadToken_avail_strict)
    from Suc have IH: "\<And>s e s'. ReadE n s = Returns e s' \<Longrightarrow> avail s' \<le> avail s"
      "\<And>s e s'. ReadNewFunc n s = Returns e s' \<Longrightarrow> avail s' \<le> avail s"
      "\<And>s e s'. ReadControlStructure n s = Returns e s' \<Longrightarrow> avail s' \<le> avail s"
      by (meson less_imp_le)+
    have "avail s' \<le> avail (snd (ReadToken s))"
      using that
      by (auto simp: andThen_eq_Returns Let_def split_def split: if_splits option.splits
          dest!: IH intro!: order_trans[OF ReadToken_avail])
    with a show ?thesis by linarith
  qed
  have N: "avail s' < avail s" if "ReadNewFunc (Suc n) s = Returns e s'" for s e s'
  proof -
    define s4 where "s4 = snd (ReadToken (snd (ReadToken (snd (ReadArguments (snd (ReadToken s)))))))"
    have a: "avail s4 \<le> avail s" unfolding s4_def ReadArguments_def
      by (meson ReadToken_avail order_trans)
    from that obtain b s5 where 5: "ReadE n s4 = Returns b s5" and 6: "s' = snd (ReadToken (snd (ReadToken s5)))"
      by (auto simp: andThen_eq_Returns Let_def split_def s4_def)
    from 5 Suc have "avail s5 < avail s4" by blast
    moreover from 6 have "avail s' \<le> avail s5" by (meson ReadToken_avail order_trans)
    ultimately show ?thesis using a by linarith
  qed
  have R: "avail s' < avail s" if "ReadControlStructure (Suc n) s = Returns e s'" for s e s'
  proof -
    define s2 where "s2 = (if fst (ReadToken s) = ''if'' then snd (ReadToken (snd (ReadToken s))) else snd (ReadToken s))"
    have a: "avail s2 \<le> avail s" using ReadToken_avail [of s] ReadToken_avail [of "snd (ReadToken s)"]
      by (auto simp: s2_def)
    from that [unfolded ReadControlStructure_Suc s2_def [symmetric]] obtain x3 s3 x5 s5 x7 s7 x9 where
      3: "ReadE n s2 = Returns x3 s3" and
      5: "ReadE n (snd (ReadToken s3)) = Returns x5 s5" and
      7: "ReadE n (snd (ReadToken s5)) = Returns x7 s7" and
      9: "ReadE n (snd (ReadToken s7)) = Returns x9 s'"
      by (auto simp: andThen_eq_Returns split: if_splits)
    from 3 5 7 9 Suc have "avail s3 < avail s2" "avail s5 < avail (snd (ReadToken s3))"
      "avail s7 < avail (snd (ReadToken s5))" "avail s' < avail (snd (ReadToken s7))"
      by blast+
    moreover have "avail (snd (ReadToken s3)) \<le> avail s3" "avail (snd (ReadToken s5)) \<le> avail s5"
       "avail (snd (ReadToken s7)) \<le> avail s7"
      by (rule ReadToken_avail)+
    ultimately show ?thesis using a by linarith
  qed
  from E T C F N R show ?case by blast
qed


subsection \<open>A depth that is never exceeded\<close>

text \<open>
  Between two calls of the same routine on the way down, \<^verbatim>\<open>ReadF\<close> has consumed a token, and
  at most five calls lie between them; so five calls per token left, and four to reach
  \<^verbatim>\<open>ReadF\<close> from \<^verbatim>\<open>ReadE\<close>, are enough.
\<close>

lemma ReadE_consumes: "ReadE n s = Returns e s' \<Longrightarrow> avail s' < avail s"
  using avail_decreases [of n] by blast

lemma ReadT_consumes: "ReadT n s = Returns e s' \<Longrightarrow> avail s' < avail s"
  using avail_decreases [of n] by blast

lemma ReadC_consumes: "ReadC n s = Returns e s' \<Longrightarrow> avail s' < avail s"
  using avail_decreases [of n] by blast

lemma ReadF_consumes: "ReadF n s = Returns e s' \<Longrightarrow> avail s' < avail s"
  using avail_decreases [of n] by blast

lemma andThen_OutOfFuelD:
  "andThen r f = OutOfFuel \<Longrightarrow> r \<noteq> OutOfFuel \<Longrightarrow> \<exists>a s. r = Returns a s \<and> f a s = OutOfFuel"
  by (cases r) auto

lemma enough_fuel:
  "(\<forall>s. 5 * avail s + 4 \<le> n \<longrightarrow> ReadE n s \<noteq> OutOfFuel) \<and>
   (\<forall>s. 5 * avail s + 3 \<le> n \<longrightarrow> ReadT n s \<noteq> OutOfFuel) \<and>
   (\<forall>s. 5 * avail s + 2 \<le> n \<longrightarrow> ReadC n s \<noteq> OutOfFuel) \<and>
   (\<forall>s. 5 * avail s + 1 \<le> n \<longrightarrow> ReadF n s \<noteq> OutOfFuel) \<and>
   (\<forall>s. 5 * avail s + 5 \<le> n \<longrightarrow> ReadNewFunc n s \<noteq> OutOfFuel) \<and>
   (\<forall>s. 5 * avail s + 5 \<le> n \<longrightarrow> ReadControlStructure n s \<noteq> OutOfFuel)"
proof (induction n)
  case 0
  show ?case by simp
next
  case (Suc n)
  then have IH_E: "\<And>s. 5 * avail s + 4 \<le> n \<Longrightarrow> ReadE n s \<noteq> OutOfFuel"
    and IH_T: "\<And>s. 5 * avail s + 3 \<le> n \<Longrightarrow> ReadT n s \<noteq> OutOfFuel"
    and IH_C: "\<And>s. 5 * avail s + 2 \<le> n \<Longrightarrow> ReadC n s \<noteq> OutOfFuel"
    and IH_F: "\<And>s. 5 * avail s + 1 \<le> n \<Longrightarrow> ReadF n s \<noteq> OutOfFuel"
    and IH_N: "\<And>s. 5 * avail s + 5 \<le> n \<Longrightarrow> ReadNewFunc n s \<noteq> OutOfFuel"
    and IH_R: "\<And>s. 5 * avail s + 5 \<le> n \<Longrightarrow> ReadControlStructure n s \<noteq> OutOfFuel"
    by blast+
  have E: "ReadE (Suc n) s \<noteq> OutOfFuel" if b: "5 * avail s + 4 \<le> Suc n" for s
  proof
    assume "ReadE (Suc n) s = OutOfFuel"
    moreover from b have "ReadT n s \<noteq> OutOfFuel" by (intro IH_T) simp
    ultimately obtain x s1 where 1: "ReadT n s = Returns x s1"
      and 2: "ReadE n (snd (ReadToken s1)) = OutOfFuel"
      by (auto simp: Let_def split_def andThen_eq_OutOfFuel split: if_splits)
    from 1 have "avail s1 < avail s" by (rule ReadT_consumes)
    with ReadToken_avail [of s1] b have "5 * avail (snd (ReadToken s1)) + 4 \<le> n" by linarith
    with 2 IH_E show False by blast
  qed
  have T: "ReadT (Suc n) s \<noteq> OutOfFuel" if b: "5 * avail s + 3 \<le> Suc n" for s
  proof
    assume "ReadT (Suc n) s = OutOfFuel"
    moreover from b have "ReadC n s \<noteq> OutOfFuel" by (intro IH_C) simp
    ultimately obtain x s1 where 1: "ReadC n s = Returns x s1"
      and 2: "ReadT n (snd (ReadToken s1)) = OutOfFuel"
      by (auto simp: Let_def split_def andThen_eq_OutOfFuel SaveToken_after_read split: if_splits)
    from 1 have "avail s1 < avail s" by (rule ReadC_consumes)
    with ReadToken_avail [of s1] b have "5 * avail (snd (ReadToken s1)) + 3 \<le> n" by linarith
    with 2 IH_T show False by blast
  qed
  have C: "ReadC (Suc n) s \<noteq> OutOfFuel" if b: "5 * avail s + 2 \<le> Suc n" for s
  proof
    assume "ReadC (Suc n) s = OutOfFuel"
    moreover from b have "ReadF n s \<noteq> OutOfFuel" by (intro IH_F) simp
    ultimately obtain x s1 where 1: "ReadF n s = Returns x s1"
      and 2: "ReadE n (snd (ReadToken s1)) = OutOfFuel"
      by (auto simp: Let_def split_def andThen_eq_OutOfFuel SaveToken_after_read split: if_splits)
    from 1 have "avail s1 < avail s" by (rule ReadF_consumes)
    with ReadToken_avail [of s1] b have "5 * avail (snd (ReadToken s1)) + 4 \<le> n" by linarith
    with 2 IH_E show False by blast
  qed
  have F: "ReadF (Suc n) s \<noteq> OutOfFuel" if b: "5 * avail s + 1 \<le> Suc n" for s
  proof
    assume a: "ReadF (Suc n) s = OutOfFuel"
    then have ne: "fst (ReadToken s) \<noteq> []"
      by (auto simp: char0_def isdigit_def isalpha_def Let_def split_def)
    then have "avail (snd (ReadToken s)) < avail s" by (rule ReadToken_avail_strict)
    with b have 5: "5 * avail (snd (ReadToken s)) + 5 \<le> n" by linarith
    then have "ReadE n (snd (ReadToken s)) \<noteq> OutOfFuel"
      "ReadNewFunc n (snd (ReadToken s)) \<noteq> OutOfFuel"
      "ReadControlStructure n (snd (ReadToken s)) \<noteq> OutOfFuel"
      using IH_E [of "snd (ReadToken s)"] IH_N [of "snd (ReadToken s)"]
        IH_R [of "snd (ReadToken s)"] by simp_all
    with a show False
      by (auto simp: Let_def split_def andThen_eq_OutOfFuel split: if_splits option.splits)
  qed
  have N: "ReadNewFunc (Suc n) s \<noteq> OutOfFuel" if b: "5 * avail s + 5 \<le> Suc n" for s
  proof
    define s4 where "s4 = snd (ReadToken (snd (ReadToken (snd (ReadArguments (snd (ReadToken s)))))))"
    have "avail s4 \<le> avail s" unfolding s4_def ReadArguments_def
      by (meson ReadToken_avail order_trans)
    with b have "ReadE n s4 \<noteq> OutOfFuel" by (intro IH_E) linarith
    moreover assume "ReadNewFunc (Suc n) s = OutOfFuel"
    ultimately show False
      by (auto simp: Let_def split_def andThen_eq_OutOfFuel s4_def)
  qed
  have R: "ReadControlStructure (Suc n) s \<noteq> OutOfFuel" if b: "5 * avail s + 5 \<le> Suc n" for s
  proof
    define s2 where "s2 = (if fst (ReadToken s) = ''if'' then snd (ReadToken (snd (ReadToken s))) else snd (ReadToken s))"
    have a: "avail s2 \<le> avail s" using ReadToken_avail [of s] ReadToken_avail [of "snd (ReadToken s)"]
      by (auto simp: s2_def)
    have le: "ReadE n t \<noteq> OutOfFuel" if "avail t \<le> avail s" for t
      using that b by (intro IH_E) linarith
    assume "ReadControlStructure (Suc n) s = OutOfFuel"
    then have "andThen (ReadE n s2) (\<lambda>expPre s3.
       andThen (ReadE n (snd (ReadToken s3))) (\<lambda>expPost s5.
         if fst (ReadToken s5) \<noteq> ''then'' then Raises MalformedConditional
         else andThen (ReadE n (snd (ReadToken s5))) (\<lambda>expThen s7.
           if fst (ReadToken s7) \<noteq> ''else'' then Raises MalformedConditional
           else andThen (ReadE n (snd (ReadToken s7))) (\<lambda>expElse s9.
             Returns (NewIfExp expPre (fst (ReadToken s3)) expPost expThen expElse) s9)))) = OutOfFuel"
      unfolding ReadControlStructure_Suc s2_def .
    moreover have "ReadE n s2 \<noteq> OutOfFuel" using a by (rule le)
    ultimately obtain x3 s3 where 3: "ReadE n s2 = Returns x3 s3" and
      r3: "andThen (ReadE n (snd (ReadToken s3))) (\<lambda>expPost s5.
         if fst (ReadToken s5) \<noteq> ''then'' then Raises MalformedConditional
         else andThen (ReadE n (snd (ReadToken s5))) (\<lambda>expThen s7.
           if fst (ReadToken s7) \<noteq> ''else'' then Raises MalformedConditional
           else andThen (ReadE n (snd (ReadToken s7))) (\<lambda>expElse s9.
             Returns (NewIfExp x3 (fst (ReadToken s3)) expPost expThen expElse) s9))) = OutOfFuel"
      by (auto dest!: andThen_OutOfFuelD)
    from 3 a have a3: "avail (snd (ReadToken s3)) \<le> avail s"
      using ReadE_consumes [OF 3] ReadToken_avail [of s3] by linarith
    with r3 le obtain x5 s5 where 5: "ReadE n (snd (ReadToken s3)) = Returns x5 s5" and
      r5: "andThen (ReadE n (snd (ReadToken s5))) (\<lambda>expThen s7.
           if fst (ReadToken s7) \<noteq> ''else'' then Raises MalformedConditional
           else andThen (ReadE n (snd (ReadToken s7))) (\<lambda>expElse s9.
             Returns (NewIfExp x3 (fst (ReadToken s3)) x5 expThen expElse) s9)) = OutOfFuel"
      by (auto dest!: andThen_OutOfFuelD split: if_splits)
    from 5 a3 have a5: "avail (snd (ReadToken s5)) \<le> avail s"
      using ReadE_consumes [OF 5] ReadToken_avail [of s5] by linarith
    with r5 le obtain x7 s7 where 7: "ReadE n (snd (ReadToken s5)) = Returns x7 s7" and
      r7: "ReadE n (snd (ReadToken s7)) = OutOfFuel"
      by (auto dest!: andThen_OutOfFuelD split: if_splits)
    from 7 a5 have "avail (snd (ReadToken s7)) \<le> avail s"
      using ReadE_consumes [OF 7] ReadToken_avail [of s7] by linarith
    with r7 le show False by blast
  qed
  from E T C F N R show ?case by blast
qed


subsection \<open>More depth changes no answer\<close>

lemma andThen_fuel:
  assumes "andThen r f \<noteq> OutOfFuel"
    and "r \<noteq> OutOfFuel \<Longrightarrow> r' = r"
    and "\<And>a s. r = Returns a s \<Longrightarrow> f a s \<noteq> OutOfFuel \<Longrightarrow> f' a s = f a s"
  shows "andThen r' f' = andThen r f"
  using assms by (cases r) auto

lemma fuel_mono:
  "(\<forall>s m. n \<le> m \<longrightarrow> ReadE n s \<noteq> OutOfFuel \<longrightarrow> ReadE m s = ReadE n s) \<and>
   (\<forall>s m. n \<le> m \<longrightarrow> ReadT n s \<noteq> OutOfFuel \<longrightarrow> ReadT m s = ReadT n s) \<and>
   (\<forall>s m. n \<le> m \<longrightarrow> ReadC n s \<noteq> OutOfFuel \<longrightarrow> ReadC m s = ReadC n s) \<and>
   (\<forall>s m. n \<le> m \<longrightarrow> ReadF n s \<noteq> OutOfFuel \<longrightarrow> ReadF m s = ReadF n s) \<and>
   (\<forall>s m. n \<le> m \<longrightarrow> ReadNewFunc n s \<noteq> OutOfFuel \<longrightarrow> ReadNewFunc m s = ReadNewFunc n s) \<and>
   (\<forall>s m. n \<le> m \<longrightarrow> ReadControlStructure n s \<noteq> OutOfFuel \<longrightarrow>
      ReadControlStructure m s = ReadControlStructure n s)"
proof (induction n)
  case 0
  show ?case by simp
next
  case (Suc n)
  then have IH_E: "\<And>s m. n \<le> m \<Longrightarrow> ReadE n s \<noteq> OutOfFuel \<Longrightarrow> ReadE m s = ReadE n s"
    and IH_T: "\<And>s m. n \<le> m \<Longrightarrow> ReadT n s \<noteq> OutOfFuel \<Longrightarrow> ReadT m s = ReadT n s"
    and IH_C: "\<And>s m. n \<le> m \<Longrightarrow> ReadC n s \<noteq> OutOfFuel \<Longrightarrow> ReadC m s = ReadC n s"
    and IH_F: "\<And>s m. n \<le> m \<Longrightarrow> ReadF n s \<noteq> OutOfFuel \<Longrightarrow> ReadF m s = ReadF n s"
    and IH_N: "\<And>s m. n \<le> m \<Longrightarrow> ReadNewFunc n s \<noteq> OutOfFuel \<Longrightarrow> ReadNewFunc m s = ReadNewFunc n s"
    and IH_R: "\<And>s m. n \<le> m \<Longrightarrow> ReadControlStructure n s \<noteq> OutOfFuel \<Longrightarrow>
                 ReadControlStructure m s = ReadControlStructure n s"
    by blast+
  have E: "ReadE (Suc m) s = ReadE (Suc n) s" if le: "n \<le> m" and ok: "ReadE (Suc n) s \<noteq> OutOfFuel" for m s
    using ok by (auto simp: Let_def split_def intro!: andThen_fuel IH_E [OF le] IH_T [OF le])
  have T: "ReadT (Suc m) s = ReadT (Suc n) s" if le: "n \<le> m" and ok: "ReadT (Suc n) s \<noteq> OutOfFuel" for m s
    using ok by (auto simp: Let_def split_def intro!: andThen_fuel IH_C [OF le] IH_T [OF le])
  have C: "ReadC (Suc m) s = ReadC (Suc n) s" if le: "n \<le> m" and ok: "ReadC (Suc n) s \<noteq> OutOfFuel" for m s
    using ok by (auto simp: Let_def split_def intro!: andThen_fuel IH_E [OF le] IH_F [OF le])
  have F: "ReadF (Suc m) s = ReadF (Suc n) s" if le: "n \<le> m" and ok: "ReadF (Suc n) s \<noteq> OutOfFuel" for m s
    using ok by (auto simp: Let_def split_def intro!: andThen_fuel IH_E [OF le] IH_N [OF le] IH_R [OF le])
  have N: "ReadNewFunc (Suc m) s = ReadNewFunc (Suc n) s"
    if le: "n \<le> m" and ok: "ReadNewFunc (Suc n) s \<noteq> OutOfFuel" for m s
    using ok by (auto simp: Let_def split_def intro!: andThen_fuel IH_E [OF le])
  have R: "ReadControlStructure (Suc m) s = ReadControlStructure (Suc n) s"
    if le: "n \<le> m" and ok: "ReadControlStructure (Suc n) s \<noteq> OutOfFuel" for m s
    using ok unfolding ReadControlStructure_Suc
    by (auto intro!: andThen_fuel IH_E [OF le])
  show ?case
  proof (intro conjI allI impI)
    fix s m assume "Suc n \<le> m"
    then obtain m' where m: "m = Suc m'" "n \<le> m'" by (cases m) auto
    { assume "ReadE (Suc n) s \<noteq> OutOfFuel" then show "ReadE m s = ReadE (Suc n) s"
        using E m by blast }
    { assume "ReadT (Suc n) s \<noteq> OutOfFuel" then show "ReadT m s = ReadT (Suc n) s"
        using T m by blast }
    { assume "ReadC (Suc n) s \<noteq> OutOfFuel" then show "ReadC m s = ReadC (Suc n) s"
        using C m by blast }
    { assume "ReadF (Suc n) s \<noteq> OutOfFuel" then show "ReadF m s = ReadF (Suc n) s"
        using F m by blast }
    { assume "ReadNewFunc (Suc n) s \<noteq> OutOfFuel" then show "ReadNewFunc m s = ReadNewFunc (Suc n) s"
        using N m by blast }
    { assume "ReadControlStructure (Suc n) s \<noteq> OutOfFuel"
      then show "ReadControlStructure m s = ReadControlStructure (Suc n) s"
        using R m by blast }
  qed
qed

text \<open>From here on the recursion equations are unfolded only where a proof asks for them.\<close>

lemmas Read_Suc = ReadE.simps(2) ReadT.simps(2) ReadC.simps(2) ReadF.simps(2)
  ReadNewFunc.simps(2) ReadControlStructure.simps(2)

declare Read_Suc [simp del]

lemma andThen_eq_Raises:
  "andThen r f = Raises e \<longleftrightarrow> r = Raises e \<or> (\<exists>a s. r = Returns a s \<and> f a s = Raises e)"
  by (cases r) auto

subsection \<open>Plain operands and operator chains\<close>

lemma paren_not_atom: "\<not> is_atom ''(''"
  by (simp add: is_atom_def char0_def isdigit_def isalpha_def)

lemma isdigit_char0_nonempty: "isdigit (char0 t) \<Longrightarrow> t \<noteq> []"
  by (auto simp: char0_def isdigit_def)

lemma atom_not_command: "is_atom t \<Longrightarrow> char0 t \<noteq> CHR '':''"
  by (auto simp: is_atom_def isdigit_def isalpha_def split: if_splits)

lemma ReadF_atom:
  assumes "is_atom (fst (ReadToken s))"
  shows "ReadF (Suc n) s = Returns (atom_exp (fst (ReadToken s))) (snd (ReadToken s))"
proof -
  let ?t = "fst (ReadToken s)"
  from assms paren_not_atom have np: "?t \<noteq> ''(''" by auto
  show ?thesis
  proof (cases "isdigit (char0 ?t)")
    case True
    with assms have "StringToInteger ?t = Some (decimal_value ?t)"
      by (simp add: is_atom_def StringToInteger_def isdigit_char0_nonempty)
    with True np show ?thesis by (simp add: Read_Suc split_def atom_exp_def Let_def)
  next
    case False
    with assms np show ?thesis by (simp add: Read_Suc split_def atom_exp_def is_atom_def Let_def)
  qed
qed

lemma ReadC_atom:
  assumes "ReadToken s = (a, s1)" and "is_atom a" and "ReadToken s1 = (u, s2)" and "u \<noteq> ''(''"
  shows "ReadC (Suc (Suc n)) s = Returns (atom_exp a) (s2\<lparr>savedToken := Some u\<rparr>)"
proof -
  from assms have "ReadF (Suc n) s = Returns (atom_exp a) s1"
    using ReadF_atom [of s n] by simp
  moreover from assms(3) have "SaveToken s2 u = Returns () (s2\<lparr>savedToken := Some u\<rparr>)"
    using SaveToken_after_read [of s1 u] by simp
  ultimately show ?thesis using assms(3,4) by (simp add: ReadC.simps(2))
qed

lemma reread_saved:
  "ReadToken s1 = (u, s2) \<Longrightarrow> ReadToken (s2\<lparr>savedToken := Some u\<rparr>) = (u, s2)"
  by (auto simp: ReadToken_def split: option.splits list.splits)

lemma ReadT_atom_stops:
  assumes "ReadToken s = (a, s1)" and "is_atom a" and "ReadToken s1 = (u, s2)"
    and "u \<noteq> ''(''" and "u \<noteq> ''*''" and "u \<noteq> ''/''"
  shows "ReadT (Suc (Suc (Suc n))) s = Returns (atom_exp a) (s2\<lparr>savedToken := Some u\<rparr>)"
proof -
  have "ReadC (Suc (Suc n)) s = Returns (atom_exp a) (s2\<lparr>savedToken := Some u\<rparr>)"
    using assms(1-4) by (rule ReadC_atom)
  moreover have "ReadToken (s2\<lparr>savedToken := Some u\<rparr>) = (u, s2)"
    using assms(3) by (rule reread_saved)
  moreover from assms(3) have "SaveToken s2 u = Returns () (s2\<lparr>savedToken := Some u\<rparr>)"
    using SaveToken_after_read [of s1 u] by simp
  ultimately show ?thesis using assms(5,6) by (simp add: ReadT.simps(2))
qed

lemma ReadE_additive_chain:
  assumes "list_all additive rest" and "is_atom a"
    and "ReadToken s = (a, \<lparr>tokens = chain_tokens rest, savedToken = None\<rparr>)"
  shows "ReadE (Suc (Suc (Suc (Suc (length rest + k))))) s =
         Returns (right_nested a rest) \<lparr>tokens = [], savedToken = None\<rparr>"
  using assms
proof (induction rest arbitrary: a s)
  case Nil
  have "ReadT (Suc (Suc (Suc k))) s = Returns (atom_exp a) (\<lparr>tokens = [], savedToken = None\<rparr>\<lparr>savedToken := Some []\<rparr>)"
    using Nil by (intro ReadT_atom_stops [where ?s1.0 = "\<lparr>tokens = [], savedToken = None\<rparr>"])
      (simp_all add: ReadToken_def)
  then show ?case by (simp add: ReadE.simps(2) ReadToken_def)
next
  case (Cons p rest)
  obtain opr b where p: "p = (opr, b)" by (cases p)
  from Cons.prems p have hd: "additive (opr, b)" and rest: "list_all additive rest"
    by simp_all
  from hd have opr: "opr = ''+'' \<or> opr = ''-''" and b: "is_atom b"
    by (simp_all add: additive_def)
  let ?s2 = "\<lparr>tokens = b # chain_tokens rest, savedToken = None\<rparr>"
  have "ReadT (Suc (Suc (Suc (Suc (length rest + k))))) s = Returns (atom_exp a) (?s2\<lparr>savedToken := Some opr\<rparr>)"
    using Cons.prems(2,3) opr p
    by (intro ReadT_atom_stops [where ?s1.0 = "\<lparr>tokens = chain_tokens (p # rest), savedToken = None\<rparr>"])
      (auto simp add: ReadToken_def)
  moreover have "ReadE (Suc (Suc (Suc (Suc (length rest + k))))) ?s2 =
      Returns (right_nested b rest) \<lparr>tokens = [], savedToken = None\<rparr>"
    using rest b by (rule Cons.IH) (simp add: ReadToken_def)
  ultimately show ?case using opr p
    by (auto simp add: ReadE.simps(2) ReadToken_def)
qed


lemma ReadT_multiplicative_chain:
  assumes "list_all multiplicative rest" and "is_atom a"
    and "ReadToken s = (a, \<lparr>tokens = chain_tokens rest, savedToken = None\<rparr>)"
  shows "ReadT (Suc (Suc (Suc (length rest + k)))) s =
         Returns (right_nested a rest) \<lparr>tokens = [], savedToken = Some []\<rparr>"
  using assms
proof (induction rest arbitrary: a s)
  case Nil
  have "ReadT (Suc (Suc (Suc k))) s = Returns (atom_exp a) (\<lparr>tokens = [], savedToken = None\<rparr>\<lparr>savedToken := Some []\<rparr>)"
    using Nil by (intro ReadT_atom_stops [where ?s1.0 = "\<lparr>tokens = [], savedToken = None\<rparr>"])
      (simp_all add: ReadToken_def)
  then show ?case by simp
next
  case (Cons p rest)
  obtain opr b where p: "p = (opr, b)" by (cases p)
  from Cons.prems p have hd: "multiplicative (opr, b)" and rest: "list_all multiplicative rest"
    by simp_all
  from hd have opr: "opr = ''*'' \<or> opr = ''/''" and b: "is_atom b"
    by (simp_all add: multiplicative_def)
  let ?s2 = "\<lparr>tokens = b # chain_tokens rest, savedToken = None\<rparr>"
  have "ReadC (Suc (Suc (Suc (length rest + k)))) s = Returns (atom_exp a) (?s2\<lparr>savedToken := Some opr\<rparr>)"
    using Cons.prems(2,3) opr p
    by (intro ReadC_atom [where ?s1.0 = "\<lparr>tokens = chain_tokens (p # rest), savedToken = None\<rparr>"])
      (auto simp add: ReadToken_def)
  moreover have "ReadT (Suc (Suc (Suc (length rest + k)))) ?s2 =
      Returns (right_nested b rest) \<lparr>tokens = [], savedToken = Some []\<rparr>"
    using rest b by (rule Cons.IH) (simp add: ReadToken_def)
  ultimately show ?case using opr p
    by (auto simp add: ReadT.simps(2) ReadToken_def)
qed

lemma CheckCommandToken_atom:
  "is_atom a \<Longrightarrow>
   CheckCommandToken \<lparr>tokens = a # ts, savedToken = None\<rparr> =
     Returns [] \<lparr>tokens = ts, savedToken = Some a\<rparr>"
  by (simp add: CheckCommandToken_def ReadToken_def SaveToken_def atom_not_command)

lemma ParseExp_additive_chain:
  assumes "is_atom a" and "list_all additive rest"
  shows "ParseExp (length rest + 4 + k) \<lparr>tokens = a # chain_tokens rest, savedToken = None\<rparr> =
         Returns (right_nested a rest) \<lparr>tokens = [], savedToken = None\<rparr>"
proof -
  have fuel: "length rest + 4 + k = Suc (Suc (Suc (Suc (length rest + k))))" by simp
  have "ReadE (Suc (Suc (Suc (Suc (length rest + k)))))
      \<lparr>tokens = chain_tokens rest, savedToken = Some a\<rparr> =
      Returns (right_nested a rest) \<lparr>tokens = [], savedToken = None\<rparr>"
    using assms(2,1) by (rule ReadE_additive_chain) (simp add: ReadToken_def)
  then show ?thesis
    unfolding fuel using assms(1) by (simp add: ParseExp_def CheckCommandToken_atom)
qed

lemma ParseExp_multiplicative_chain:
  assumes "is_atom a" and "list_all multiplicative rest"
  shows "ParseExp (length rest + 4 + k) \<lparr>tokens = a # chain_tokens rest, savedToken = None\<rparr> =
         Returns (right_nested a rest) \<lparr>tokens = [], savedToken = None\<rparr>"
proof -
  have fuel: "length rest + 4 + k = Suc (Suc (Suc (Suc (length rest + k))))" by simp
  have "ReadT (Suc (Suc (Suc (length rest + k))))
      \<lparr>tokens = chain_tokens rest, savedToken = Some a\<rparr> =
      Returns (right_nested a rest) \<lparr>tokens = [], savedToken = Some []\<rparr>"
    using assms(2,1) by (rule ReadT_multiplicative_chain) (simp add: ReadToken_def)
  then show ?thesis
    unfolding fuel using assms(1)
    by (simp add: ParseExp_def CheckCommandToken_atom ReadE.simps(2) ReadToken_def)
qed

subsection \<open>Whole lines\<close>

lemma CheckCommandToken_avail:
  "CheckCommandToken s = Returns c s' \<Longrightarrow> avail s' \<le> avail s"
  using ReadToken_avail [of s] ReadToken_avail [of "snd (ReadToken s)"] read_save_avail [of s]
  by (auto simp: CheckCommandToken_def Let_def split_def SaveToken_after_read split: if_splits)

lemma CheckCommandToken_no_fuel: "CheckCommandToken s \<noteq> OutOfFuel"
  by (auto simp: CheckCommandToken_def Let_def split_def SaveToken_after_read)

lemma ParseExp_enough_fuel:
  assumes "5 * avail s + 4 \<le> n"
  shows "ParseExp n s \<noteq> OutOfFuel"
proof
  assume "ParseExp n s = OutOfFuel"
  then obtain c s1 where 1: "CheckCommandToken s = Returns c s1"
    and 2: "(if c = [] then ReadE n s1 else ReadCommand n s1 c) = OutOfFuel"
    using CheckCommandToken_no_fuel [of s] by (auto simp: ParseExp_def andThen_eq_OutOfFuel)
  from 1 have a: "avail s1 \<le> avail s" by (rule CheckCommandToken_avail)
  have le: "ReadE n t \<noteq> OutOfFuel" if "avail t \<le> avail s1" for t
    using that a assms enough_fuel [of n] by (meson add_le_mono1 mult_le_mono2 order_trans)
  have "avail (snd (ReadToken (snd (ReadToken s1)))) \<le> avail s1"
    by (meson ReadToken_avail order_trans)
  with 2 le show False
    by (auto simp: ReadCommand_def Let_def split_def andThen_eq_OutOfFuel split: if_splits)
qed

lemma ParseExp_fuel_mono:
  assumes "n \<le> m" and "ParseExp n s \<noteq> OutOfFuel"
  shows "ParseExp m s = ParseExp n s"
proof -
  have E: "ReadE m t = ReadE n t" if "ReadE n t \<noteq> OutOfFuel" for t
    using that assms(1) fuel_mono [of n] by blast
  show ?thesis using assms(2) unfolding ParseExp_def ReadCommand_def
    by (auto simp: Let_def split_def intro!: andThen_fuel E)
qed

lemma parse_line_total: "parse_line line \<noteq> OutOfFuel"
  by (simp add: parse_line_def Let_def ParseExp_enough_fuel)

lemma parse_line_eq:
  assumes "ParseExp n (SetScannerString line) \<noteq> OutOfFuel"
  shows "parse_line line = ParseExp n (SetScannerString line)"
proof -
  let ?s = "SetScannerString line"
  let ?b = "5 * avail ?s + 4"
  have t: "ParseExp ?b ?s \<noteq> OutOfFuel" by (simp add: ParseExp_enough_fuel)
  show ?thesis
  proof (cases "n \<le> ?b")
    case True
    with assms show ?thesis by (simp add: parse_line_def Let_def ParseExp_fuel_mono)
  next
    case False
    then have "?b \<le> n" by simp
    then have "ParseExp n ?s = ParseExp ?b ?s" using t by (rule ParseExp_fuel_mono)
    then show ?thesis by (simp add: parse_line_def Let_def)
  qed
qed

subsection \<open>The pushback slot\<close>

text \<open>
  In \<^verbatim>\<open>ReadT\<close>, \<^verbatim>\<open>ReadC\<close> and \<^verbatim>\<open>CheckCommandToken\<close> the token pushed back is the one just read,
  so the slot is empty when \<^verbatim>\<open>SaveToken\<close> is called; the other routines never push back.
\<close>

lemma no_double_pushback:
  "(\<forall>s. ReadE n s \<noteq> Raises TokenAlreadySaved) \<and>
   (\<forall>s. ReadT n s \<noteq> Raises TokenAlreadySaved) \<and>
   (\<forall>s. ReadC n s \<noteq> Raises TokenAlreadySaved) \<and>
   (\<forall>s. ReadF n s \<noteq> Raises TokenAlreadySaved) \<and>
   (\<forall>s. ReadNewFunc n s \<noteq> Raises TokenAlreadySaved) \<and>
   (\<forall>s. ReadControlStructure n s \<noteq> Raises TokenAlreadySaved)"
proof (induction n)
  case 0
  show ?case by simp
next
  case (Suc n)
  have E: "ReadE (Suc n) s \<noteq> Raises TokenAlreadySaved" for s
    using Suc by (auto simp: Read_Suc andThen_eq_Raises Let_def split_def)
  have T: "ReadT (Suc n) s \<noteq> Raises TokenAlreadySaved" for s
    using Suc by (auto simp: Read_Suc andThen_eq_Raises Let_def split_def SaveToken_after_read)
  have C: "ReadC (Suc n) s \<noteq> Raises TokenAlreadySaved" for s
    using Suc by (auto simp: Read_Suc andThen_eq_Raises Let_def split_def SaveToken_after_read)
  have F: "ReadF (Suc n) s \<noteq> Raises TokenAlreadySaved" for s
    using Suc by (auto simp: Read_Suc andThen_eq_Raises Let_def split_def split: option.splits)
  have N: "ReadNewFunc (Suc n) s \<noteq> Raises TokenAlreadySaved" for s
    using Suc by (auto simp: Read_Suc andThen_eq_Raises Let_def split_def)
  have R: "ReadControlStructure (Suc n) s \<noteq> Raises TokenAlreadySaved" for s
    using Suc by (auto simp: ReadControlStructure_Suc andThen_eq_Raises)
  from E T C F N R show ?case by blast
qed

section \<open>The claims\<close>

lemma fuel4: "4 + k = Suc (Suc (Suc (Suc k)))"
  by simp

lemma fuel3: "3 + k = Suc (Suc (Suc k))"
  by simp

text \<open>
  \<^verbatim>\<open>ReadE\<close> has no call of \<^verbatim>\<open>SaveToken\<close>: the token it reads after its left operand is consumed
  whether or not it is an additive operator, and the pushback slot is empty whenever
  \<^verbatim>\<open>ReadE\<close> returns.
\<close>

lemma ReadE_leaves_slot_empty:
  "ReadE n s = Returns e s' \<Longrightarrow> savedToken s' = None"
proof (induction n arbitrary: s e s')
  case 0
  then show ?case by simp
next
  case (Suc n)
  from Suc.prems obtain x s1 where
    "(if fst (ReadToken s1) = ''+'' \<or> fst (ReadToken s1) = ''-''
      then andThen (ReadE n (snd (ReadToken s1)))
             (\<lambda>rhs s3. Returns (NewCompoundExp (char0 (fst (ReadToken s1))) x rhs) s3)
      else Returns x (snd (ReadToken s1))) = Returns e s'"
    by (auto simp: ReadE.simps(2) andThen_eq_Returns Let_def split_def)
  then show ?case
    using Suc.IH ReadToken_slot_empty [of s1]
    by (auto simp: andThen_eq_Returns split: if_splits)
qed

text \<open>At the end of the input \<^verbatim>\<open>ReadE\<close> finds no term.\<close>

lemma ReadE_at_end:
  assumes "avail s = 0"
  shows "ReadE (Suc (Suc (Suc (Suc m)))) s = Raises IllegalTerm"
proof -
  from assms have "fst (ReadToken s) = []"
    by (auto simp: avail_def ReadToken_def split: option.splits list.splits)
  then have "ReadF (Suc m) s = Raises IllegalTerm"
    by (simp add: ReadF.simps(2) Let_def split_def char0_def isdigit_def isalpha_def)
  then show ?thesis by (simp add: ReadE.simps(2) ReadT.simps(2) ReadC.simps(2))
qed

text \<open>
  Claim C1 says that \<^verbatim>\<open>ReadE\<close>, when the token after its left operand is neither \<^verbatim>\<open>+\<close> nor
  \<^verbatim>\<open>-\<close>, pushes that token back, as \<^verbatim>\<open>ReadT\<close> does, so that the enclosing level still finds it.
  The code does not: on the tokens \<^verbatim>\<open>1 ) * 3\<close> (the inside of \<^verbatim>\<open>(1)*3\<close> after the opening
  parenthesis), \<^verbatim>\<open>ReadE\<close> returns the integer 1 with \<^verbatim>\<open>)\<close> consumed and the slot empty, so the
  next token the caller reads is \<^verbatim>\<open>*\<close>; \<^verbatim>\<open>ReadT\<close> on the same tokens returns with \<^verbatim>\<open>)\<close> in the
  slot. This holds at every depth that lets the routines finish (\<open>k\<close> is arbitrary). The
  line \<^verbatim>\<open>(1)*3\<close> therefore parses as the integer 1 alone.
\<close>

theorem C1_ReadE_drops_terminator:
  "ReadE (4 + k) \<lparr>tokens = [''1'', '')'', ''*'', ''3''], savedToken = None\<rparr> =
     Returns (NewIntegerExp 1) \<lparr>tokens = [''*'', ''3''], savedToken = None\<rparr> \<and>
   ReadT (3 + k) \<lparr>tokens = [''1'', '')'', ''*'', ''3''], savedToken = None\<rparr> =
     Returns (NewIntegerExp 1) \<lparr>tokens = [''*'', ''3''], savedToken = Some '')''\<rparr> \<and>
   parse_line ''(1)*3'' = Returns (NewIntegerExp 1) \<lparr>tokens = [], savedToken = None\<rparr>"
proof -
  have line: "parse_line ''(1)*3'' = Returns (NewIntegerExp 1) \<lparr>tokens = [], savedToken = None\<rparr>"
    by code_simp
  let ?s = "\<lparr>tokens = [''1'', '')'', ''*'', ''3''], savedToken = None\<rparr>"
  have a: "is_atom ''1''" by (simp add: is_atom_def char0_def isdigit_def)
  have v: "atom_exp ''1'' = NewIntegerExp 1"
    by (simp add: atom_exp_def char0_def isdigit_def decimal_value_def digit_val_def)
  have T: "ReadT (Suc (Suc (Suc k))) ?s =
      Returns (atom_exp ''1'') (\<lparr>tokens = [''*'', ''3''], savedToken = None\<rparr>\<lparr>savedToken := Some '')''\<rparr>)"
    using a by (intro ReadT_atom_stops [where ?s1.0 = "\<lparr>tokens = ['')'', ''*'', ''3''], savedToken = None\<rparr>"])
      (simp_all add: ReadToken_def)
  then have "ReadE (Suc (Suc (Suc (Suc k)))) ?s =
      Returns (atom_exp ''1'') \<lparr>tokens = [''*'', ''3''], savedToken = None\<rparr>"
    by (simp add: ReadE.simps(2) ReadToken_def)
  with T line show ?thesis unfolding fuel4 fuel3 v by simp
qed

text \<open>
  Claim C2 says that the tree of a well-formed arithmetic expression follows the precedence
  table, parentheses overriding it, and that \<^verbatim>\<open>(1+2)*3\<close> parses as the product of the sum
  \<^verbatim>\<open>1+2\<close> and 3. The code returns the sum \<^verbatim>\<open>1+2\<close> alone for that line: \<^verbatim>\<open>ReadE\<close> inside the
  parentheses consumes \<^verbatim>\<open>)\<close>, and the \<^verbatim>\<open>ReadToken\<close> by which \<^verbatim>\<open>ReadF\<close> means to skip \<^verbatim>\<open>)\<close>
  consumes \<^verbatim>\<open>*\<close> instead.
\<close>

theorem C2_parenthesized_product:
  "parse_line ''(1+2)*3'' =
     Returns (NewCompoundExp CHR ''+'' (NewIntegerExp 1) (NewIntegerExp 2))
       \<lparr>tokens = [], savedToken = None\<rparr>"
  by code_simp

text \<open>
  Claim C3 says that \<^verbatim>\<open>if x < 0 then 0 else x\<close> parses as a conditional with operator \<^verbatim>\<open><\<close>,
  and that the conditional routine, once \<^verbatim>\<open>if\<close> is consumed, parses the left operand first.
  The code raises the illegal-term error for that line: \<^verbatim>\<open>ReadF\<close> has consumed \<^verbatim>\<open>if\<close>, and
  \<^verbatim>\<open>ReadControlStructure\<close> begins by reading one more token (\<^verbatim>\<open>x\<close>), which it drops, so the left
  operand is looked for at \<^verbatim>\<open><\<close>.
\<close>

theorem C3_conditional_line:
  "parse_line ''if x < 0 then 0 else x'' = Raises IllegalTerm"
  by code_simp

text \<open>
  A line the code does accept as that conditional: one spare token after \<^verbatim>\<open>if\<close>, and one
  spare token after each of the first three operands.
\<close>

lemma conditional_accepted_form:
  "parse_line ''if q x ; < 0 ; then 0 ; else x'' =
     Returns (NewIfExp (NewIdentifierExp ''x'') ''<'' (NewIntegerExp 0) (NewIntegerExp 0)
                (NewIdentifierExp ''x''))
       \<lparr>tokens = [], savedToken = None\<rparr>"
  by code_simp

text \<open>
  Claim C4, as amended: whenever \<^verbatim>\<open>ReadControlStructure\<close>, having parsed the left operand, the
  relational operator token and the right operand, reads a token other than \<^verbatim>\<open>then\<close>, the
  conditional fails with the malformed-conditional error and no tree; likewise when, having
  parsed the then-branch, it reads a token other than \<^verbatim>\<open>else\<close>. When \<^verbatim>\<open>else\<close> is there and the
  input ends after it, the missing else-branch expression is reported by the illegal-term
  error instead.
\<close>

theorem C4_keyword_enforcement:
  assumes "ReadToken s = (token, s1)"
    and "ReadE n (if token = ''if'' then snd (ReadToken s1) else s1) = Returns expPre s3"
    and "ReadToken s3 = (relOp, s4)"
    and "ReadE n s4 = Returns expPost s5"
    and "ReadToken s5 = (thenKeyWord, s6)"
  shows "(thenKeyWord \<noteq> ''then'' \<longrightarrow>
            ReadControlStructure (Suc n) s = Raises MalformedConditional) \<and>
         (thenKeyWord = ''then'' \<and> ReadE n s6 = Returns expThen s7 \<and>
          fst (ReadToken s7) \<noteq> ''else'' \<longrightarrow>
            ReadControlStructure (Suc n) s = Raises MalformedConditional) \<and>
         (thenKeyWord = ''then'' \<and> ReadE n s6 = Returns expThen s7 \<and>
          fst (ReadToken s7) = ''else'' \<and> avail (snd (ReadToken s7)) = 0 \<and> 4 \<le> n \<longrightarrow>
            ReadControlStructure (Suc n) s = Raises IllegalTerm)"
proof (intro conjI impI)
  assume "thenKeyWord \<noteq> ''then''"
  with assms show "ReadControlStructure (Suc n) s = Raises MalformedConditional"
    by (auto simp: ReadControlStructure_Suc)
next
  assume "thenKeyWord = ''then'' \<and> ReadE n s6 = Returns expThen s7 \<and> fst (ReadToken s7) \<noteq> ''else''"
  with assms show "ReadControlStructure (Suc n) s = Raises MalformedConditional"
    by (auto simp: ReadControlStructure_Suc)
next
  assume a: "thenKeyWord = ''then'' \<and> ReadE n s6 = Returns expThen s7 \<and>
          fst (ReadToken s7) = ''else'' \<and> avail (snd (ReadToken s7)) = 0 \<and> 4 \<le> n"
  then have "n = Suc (Suc (Suc (Suc (n - 4))))" by arith
  with a have "ReadE n (snd (ReadToken s7)) = Raises IllegalTerm"
    using ReadE_at_end [of "snd (ReadToken s7)" "n - 4"] by simp
  with a assms show "ReadControlStructure (Suc n) s = Raises IllegalTerm"
    by (auto simp: ReadControlStructure_Suc)
qed

text \<open>
  The three cases on token streams the routine accepts up to the keyword: the tokens after
  \<^verbatim>\<open>if\<close> are a token that is dropped, then operand, terminator, relational operator, operand,
  terminator, and then \<^verbatim>\<open>c\<close> where \<^verbatim>\<open>then\<close> is due; or \<^verbatim>\<open>then c ;\<close> and \<^verbatim>\<open>d\<close> where \<^verbatim>\<open>else\<close> is
  due; or \<^verbatim>\<open>then c ; else\<close> and the end of the input.
\<close>

theorem C4_keyword_enforcement_witness:
  "ReadControlStructure 5
     \<lparr>tokens = [''q'', ''a'', '';'', ''<'', ''b'', '';'', ''c''], savedToken = None\<rparr> =
     Raises MalformedConditional \<and>
   ReadControlStructure 5
     \<lparr>tokens = [''q'', ''a'', '';'', ''<'', ''b'', '';'', ''then'', ''c'', '';'', ''d''],
      savedToken = None\<rparr> =
     Raises MalformedConditional \<and>
   ReadControlStructure 5
     \<lparr>tokens = [''q'', ''a'', '';'', ''<'', ''b'', '';'', ''then'', ''c'', '';'', ''else''],
      savedToken = None\<rparr> =
     Raises IllegalTerm"
proof -
  let ?s = "\<lparr>tokens = [''q'', ''a'', '';'', ''<'', ''b'', '';'', ''c''], savedToken = None\<rparr>"
  let ?s1 = "\<lparr>tokens = [''a'', '';'', ''<'', ''b'', '';'', ''c''], savedToken = None\<rparr>"
  let ?s3 = "\<lparr>tokens = [''<'', ''b'', '';'', ''c''], savedToken = None\<rparr>"
  let ?s4 = "\<lparr>tokens = [''b'', '';'', ''c''], savedToken = None\<rparr>"
  let ?s5 = "\<lparr>tokens = [''c''], savedToken = None\<rparr>"
  let ?s6 = "\<lparr>tokens = [], savedToken = None\<rparr>"
  have 1: "ReadToken ?s = (''q'', ?s1)" by (simp add: ReadToken_def)
  have 2: "ReadE 4 (if ''q'' = ''if'' then snd (ReadToken ?s1) else ?s1) =
      Returns (NewIdentifierExp ''a'') ?s3"
    by code_simp
  have 3: "ReadToken ?s3 = (''<'', ?s4)" by (simp add: ReadToken_def)
  have 4: "ReadE 4 ?s4 = Returns (NewIdentifierExp ''b'') ?s5" by code_simp
  have 5: "ReadToken ?s5 = (''c'', ?s6)" by (simp add: ReadToken_def)
  let ?t = "\<lparr>tokens = [''q'', ''a'', '';'', ''<'', ''b'', '';'', ''then'', ''c'', '';'', ''d''],
            savedToken = None\<rparr>"
  let ?t1 = "\<lparr>tokens = [''a'', '';'', ''<'', ''b'', '';'', ''then'', ''c'', '';'', ''d''],
             savedToken = None\<rparr>"
  let ?t3 = "\<lparr>tokens = [''<'', ''b'', '';'', ''then'', ''c'', '';'', ''d''], savedToken = None\<rparr>"
  let ?t4 = "\<lparr>tokens = [''b'', '';'', ''then'', ''c'', '';'', ''d''], savedToken = None\<rparr>"
  let ?t5 = "\<lparr>tokens = [''then'', ''c'', '';'', ''d''], savedToken = None\<rparr>"
  let ?t6 = "\<lparr>tokens = [''c'', '';'', ''d''], savedToken = None\<rparr>"
  let ?t7 = "\<lparr>tokens = [''d''], savedToken = None\<rparr>"
  have 6: "ReadToken ?t = (''q'', ?t1)" by (simp add: ReadToken_def)
  have 7: "ReadE 4 (if ''q'' = ''if'' then snd (ReadToken ?t1) else ?t1) =
      Returns (NewIdentifierExp ''a'') ?t3"
    by code_simp
  have 8: "ReadToken ?t3 = (''<'', ?t4)" by (simp add: ReadToken_def)
  have 9: "ReadE 4 ?t4 = Returns (NewIdentifierExp ''b'') ?t5" by code_simp
  have 10: "ReadToken ?t5 = (''then'', ?t6)" by (simp add: ReadToken_def)
  have 11: "ReadE 4 ?t6 = Returns (NewIdentifierExp ''c'') ?t7" by code_simp
  have 12: "fst (ReadToken ?t7) \<noteq> ''else''" by (simp add: ReadToken_def)
  let ?u = "\<lparr>tokens = [''q'', ''a'', '';'', ''<'', ''b'', '';'', ''then'', ''c'', '';'', ''else''],
            savedToken = None\<rparr>"
  let ?u1 = "\<lparr>tokens = [''a'', '';'', ''<'', ''b'', '';'', ''then'', ''c'', '';'', ''else''],
             savedToken = None\<rparr>"
  let ?u3 = "\<lparr>tokens = [''<'', ''b'', '';'', ''then'', ''c'', '';'', ''else''], savedToken = None\<rparr>"
  let ?u4 = "\<lparr>tokens = [''b'', '';'', ''then'', ''c'', '';'', ''else''], savedToken = None\<rparr>"
  let ?u5 = "\<lparr>tokens = [''then'', ''c'', '';'', ''else''], savedToken = None\<rparr>"
  let ?u6 = "\<lparr>tokens = [''c'', '';'', ''else''], savedToken = None\<rparr>"
  let ?u7 = "\<lparr>tokens = [''else''], savedToken = None\<rparr>"
  have 13: "ReadToken ?u = (''q'', ?u1)" by (simp add: ReadToken_def)
  have 14: "ReadE 4 (if ''q'' = ''if'' then snd (ReadToken ?u1) else ?u1) =
      Returns (NewIdentifierExp ''a'') ?u3"
    by code_simp
  have 15: "ReadToken ?u3 = (''<'', ?u4)" by (simp add: ReadToken_def)
  have 16: "ReadE 4 ?u4 = Returns (NewIdentifierExp ''b'') ?u5" by code_simp
  have 17: "ReadToken ?u5 = (''then'', ?u6)" by (simp add: ReadToken_def)
  have 18: "ReadE 4 ?u6 = Returns (NewIdentifierExp ''c'') ?u7" by code_simp
  have 19: "fst (ReadToken ?u7) = ''else''" "avail (snd (ReadToken ?u7)) = 0"
    by (simp_all add: ReadToken_def avail_def)
  have f: "(5::nat) = Suc 4" by simp
  show ?thesis
    unfolding f
    using C4_keyword_enforcement [OF 1 2 3 4 5, of "NewIntegerExp 0" ?s6]
      C4_keyword_enforcement [OF 6 7 8 9 10, of "NewIdentifierExp ''c''" ?t7]
      C4_keyword_enforcement [OF 13 14 15 16 17, of "NewIdentifierExp ''c''" ?u7]
      11 12 18 19
    by simp
qed

text \<open>
  Claim C4 as the spec states it fails on the code: both example lines raise the illegal-term
  error, not the malformed-conditional error.
\<close>

theorem C4_examples_raise_illegal_term:
  "parse_line ''if a < b then c else'' = Raises IllegalTerm \<and>
   parse_line ''if a < b then c else'' \<noteq> Raises MalformedConditional \<and>
   parse_line ''if a < b c else d'' = Raises IllegalTerm \<and>
   parse_line ''if a < b c else d'' \<noteq> Raises MalformedConditional"
  by code_simp

text \<open>
  Claim C5: the line \<^verbatim>\<open>1 + 2 + 3\<close> parses as \<^verbatim>\<open>1 + (2 + 3)\<close>, and chains associate to the right
  in general: for every chain of plain operands joined by \<^verbatim>\<open>+\<close> and \<^verbatim>\<open>-\<close>, and for every chain
  joined by \<^verbatim>\<open>*\<close> and \<^verbatim>\<open>/\<close>, the parser returns the tree that nests to the right, at every depth
  from the length of the chain plus four (\<open>k\<close> is arbitrary).
\<close>

theorem C5_chains_group_to_the_right:
  "parse_line ''1 + 2 + 3'' =
     Returns (NewCompoundExp CHR ''+'' (NewIntegerExp 1)
                (NewCompoundExp CHR ''+'' (NewIntegerExp 2) (NewIntegerExp 3)))
       \<lparr>tokens = [], savedToken = None\<rparr> \<and>
   (is_atom a \<and> list_all additive rest \<longrightarrow>
      ParseExp (length rest + 4 + k) \<lparr>tokens = a # chain_tokens rest, savedToken = None\<rparr> =
        Returns (right_nested a rest) \<lparr>tokens = [], savedToken = None\<rparr>) \<and>
   (is_atom a \<and> list_all multiplicative rest \<longrightarrow>
      ParseExp (length rest + 4 + k) \<lparr>tokens = a # chain_tokens rest, savedToken = None\<rparr> =
        Returns (right_nested a rest) \<lparr>tokens = [], savedToken = None\<rparr>)"
proof (intro conjI impI)
  show "parse_line ''1 + 2 + 3'' =
     Returns (NewCompoundExp CHR ''+'' (NewIntegerExp 1)
                (NewCompoundExp CHR ''+'' (NewIntegerExp 2) (NewIntegerExp 3)))
       \<lparr>tokens = [], savedToken = None\<rparr>"
    by code_simp
next
  assume "is_atom a \<and> list_all additive rest"
  then show "ParseExp (length rest + 4 + k) \<lparr>tokens = a # chain_tokens rest, savedToken = None\<rparr> =
        Returns (right_nested a rest) \<lparr>tokens = [], savedToken = None\<rparr>"
    by (simp add: ParseExp_additive_chain)
next
  assume "is_atom a \<and> list_all multiplicative rest"
  then show "ParseExp (length rest + 4 + k) \<lparr>tokens = a # chain_tokens rest, savedToken = None\<rparr> =
        Returns (right_nested a rest) \<lparr>tokens = [], savedToken = None\<rparr>"
    by (simp add: ParseExp_multiplicative_chain)
qed

text \<open>The chains \<^verbatim>\<open>x - 2 + y\<close> and \<^verbatim>\<open>x * 2 / y\<close>.\<close>

theorem C5_chains_group_to_the_right_witness:
  "ParseExp 6 \<lparr>tokens = [''x'', ''-'', ''2'', ''+'', ''y''], savedToken = None\<rparr> =
     Returns (NewCompoundExp CHR ''-'' (NewIdentifierExp ''x'')
                (NewCompoundExp CHR ''+'' (NewIntegerExp 2) (NewIdentifierExp ''y'')))
       \<lparr>tokens = [], savedToken = None\<rparr> \<and>
   ParseExp 6 \<lparr>tokens = [''x'', ''*'', ''2'', ''/'', ''y''], savedToken = None\<rparr> =
     Returns (NewCompoundExp CHR ''*'' (NewIdentifierExp ''x'')
                (NewCompoundExp CHR ''/'' (NewIntegerExp 2) (NewIdentifierExp ''y'')))
       \<lparr>tokens = [], savedToken = None\<rparr>"
proof -
  have x: "is_atom ''x''" and y: "is_atom ''y''" and two: "is_atom ''2''"
    by (simp_all add: is_atom_def char0_def isdigit_def isalpha_def)
  have e: "atom_exp ''x'' = NewIdentifierExp ''x''" "atom_exp ''y'' = NewIdentifierExp ''y''"
    "atom_exp ''2'' = NewIntegerExp 2"
    by (simp_all add: atom_exp_def char0_def isdigit_def decimal_value_def digit_val_def)
  have add: "list_all additive [(''-'', ''2''), (''+'', ''y'')]"
    and mul: "list_all multiplicative [(''*'', ''2''), (''/'', ''y'')]"
    using two y by (simp_all add: additive_def multiplicative_def)
  show ?thesis
    using C5_chains_group_to_the_right [of "''x''" "[(''-'', ''2''), (''+'', ''y'')]" 0]
      C5_chains_group_to_the_right [of "''x''" "[(''*'', ''2''), (''/'', ''y'')]" 0]
      x add mul
    by (simp add: e char0_def)
qed

text \<open>
  The rule of \<^verbatim>\<open>ReadC\<close>, on the token the scanner delivers once \<^verbatim>\<open>ReadF\<close> has returned: if it is
  \<^verbatim>\<open>(\<close>, the result is the call node with the atom as callee and the expression parsed next as
  argument (or the failure of that parse); if it is any other token, the result is the atom
  alone and the token is pushed back.
\<close>

lemma ReadC_after_atom:
  assumes "ReadF n s = Returns atom s1" and "ReadToken s1 = (token, s2)"
  shows "ReadC (Suc n) s =
           (if token = ''(''
            then andThen (ReadE n s2) (\<lambda>arg s3. Returns (NewCallExp atom arg) s3)
            else Returns atom (s2\<lparr>savedToken := Some token\<rparr>))"
proof -
  from assms(2) have "SaveToken s2 token = Returns () (s2\<lparr>savedToken := Some token\<rparr>)"
    using SaveToken_after_read [of s1 token] by simp
  with assms show ?thesis by (simp add: ReadC.simps(2) GetCallExp_def)
qed

text \<open>The two lines of the spec, where the atom is an identifier.\<close>

lemma call_after_identifier:
  "parse_line ''f(1)'' =
     Returns (NewCallExp (NewIdentifierExp ''f'') (NewIntegerExp 1))
       \<lparr>tokens = [], savedToken = None\<rparr> \<and>
   parse_line ''f + 1'' =
     Returns (NewCompoundExp CHR ''+'' (NewIdentifierExp ''f'') (NewIntegerExp 1))
       \<lparr>tokens = [], savedToken = None\<rparr>"
  by code_simp

text \<open>
  Claim C6 says that \<^verbatim>\<open>f(1)\<close> parses as a call and \<^verbatim>\<open>f + 1\<close> as a sum, and that an atom becomes
  the callee of a call exactly when the token immediately following it is \<^verbatim>\<open>(\<close>. The two lines
  parse as the claim says, but the rule fails on the code for an atom that is a parenthesized
  group or a function literal, in both directions: \<^verbatim>\<open>ReadF\<close> reads one token past such an atom
  (\<^verbatim>\<open>ReadE\<close> inside has consumed the closing token, so the read meant for it takes the next
  token), and \<^verbatim>\<open>ReadC\<close> decides on the token after that. In \<^verbatim>\<open>(f)(1)\<close> the group \<^verbatim>\<open>(f)\<close> is
  followed by \<^verbatim>\<open>(\<close> and the result is the identifier \<^verbatim>\<open>f\<close> with no call; so it is for
  \<^verbatim>\<open>func (n) { n } (3)\<close>, which gives the function literal alone; and in \<^verbatim>\<open>(f) x (1)\<close> the group
  is followed by \<^verbatim>\<open>x\<close>, yet the result is the call of \<^verbatim>\<open>f\<close> on 1.
\<close>

theorem C6_group_atom_call:
  "parse_line ''(f)(1)'' =
     Returns (NewIdentifierExp ''f'') \<lparr>tokens = ['')''], savedToken = None\<rparr> \<and>
   parse_line ''func (n) { n } (3)'' =
     Returns (NewFuncExp ''n'' (NewIdentifierExp ''n'')) \<lparr>tokens = [], savedToken = None\<rparr> \<and>
   parse_line ''(f) x (1)'' =
     Returns (NewCallExp (NewIdentifierExp ''f'') (NewIntegerExp 1))
       \<lparr>tokens = [], savedToken = None\<rparr>"
  by code_simp

text \<open>
  Claim C7: the line \<^verbatim>\<open>:define x = 5\<close> parses as the binary node with operator \<^verbatim>\<open>=\<close>, left child
  the identifier \<^verbatim>\<open>x\<close> and right child the integer 5. In general, for the tokens \<^verbatim>\<open>:\<close>,
  \<^verbatim>\<open>define\<close>, any token \<open>ident\<close>, an operator token (the single character \<open>c\<close>) and then
  tokens from which \<^verbatim>\<open>ReadE\<close> returns \<open>val\<close>, \<^verbatim>\<open>ParseExp\<close> returns the binary node with operator
  \<open>c\<close>, left child the identifier \<open>ident\<close> and right child \<open>val\<close>.
\<close>

theorem C7_define_command:
  "parse_line '':define x = 5'' =
     Returns (NewCompoundExp CHR ''='' (NewIdentifierExp ''x'') (NewIntegerExp 5))
       \<lparr>tokens = [], savedToken = None\<rparr> \<and>
   (ReadE n \<lparr>tokens = rest, savedToken = None\<rparr> = Returns val s' \<longrightarrow>
      ParseExp n \<lparr>tokens = '':'' # ''define'' # ident # [c] # rest, savedToken = None\<rparr> =
        Returns (NewCompoundExp c (NewIdentifierExp ident) val) s')"
proof (intro conjI impI)
  show "parse_line '':define x = 5'' =
     Returns (NewCompoundExp CHR ''='' (NewIdentifierExp ''x'') (NewIntegerExp 5))
       \<lparr>tokens = [], savedToken = None\<rparr>"
    by code_simp
next
  assume "ReadE n \<lparr>tokens = rest, savedToken = None\<rparr> = Returns val s'"
  then show "ParseExp n \<lparr>tokens = '':'' # ''define'' # ident # [c] # rest, savedToken = None\<rparr> =
        Returns (NewCompoundExp c (NewIdentifierExp ident) val) s'"
    by (simp add: ParseExp_def CheckCommandToken_def ReadCommand_def ReadToken_def char0_def)
qed

text \<open>The tokens of \<^verbatim>\<open>:define y = 2 * 3\<close>.\<close>

theorem C7_define_command_witness:
  "ParseExp 8 \<lparr>tokens = ['':'', ''define'', ''y'', ''='', ''2'', ''*'', ''3''], savedToken = None\<rparr> =
     Returns (NewCompoundExp CHR ''='' (NewIdentifierExp ''y'')
                (NewCompoundExp CHR ''*'' (NewIntegerExp 2) (NewIntegerExp 3)))
       \<lparr>tokens = [], savedToken = None\<rparr>"
proof -
  have "ReadE 8 \<lparr>tokens = [''2'', ''*'', ''3''], savedToken = None\<rparr> =
      Returns (NewCompoundExp CHR ''*'' (NewIntegerExp 2) (NewIntegerExp 3))
        \<lparr>tokens = [], savedToken = None\<rparr>"
    by code_simp
  then show ?thesis
    using C7_define_command [of 8 "[''2'', ''*'', ''3'']" _ _ "''y''" "CHR ''=''"]
    by simp
qed

text \<open>
  Claim C8: for the line \<^verbatim>\<open>func (n) { n * 2 }\<close> the parser returns, with no error, the function
  literal with parameter \<^verbatim>\<open>n\<close> and body the product of the identifier \<^verbatim>\<open>n\<close> and the integer 2.
\<close>

theorem C8_function_literal:
  "parse_line ''func (n) { n * 2 }'' =
     Returns (NewFuncExp ''n'' (NewCompoundExp CHR ''*'' (NewIdentifierExp ''n'') (NewIntegerExp 2)))
       \<lparr>tokens = [], savedToken = None\<rparr>"
  by code_simp

text \<open>
  Claim C9: the pushback slot never holds more than one token. A \<^verbatim>\<open>SaveToken\<close> on an occupied
  slot raises \<open>TokenAlreadySaved\<close>, which no routine catches; no routine of the parser, from
  any state of the scanner (the slot may be occupied on entry) and at any depth, ends with
  that error, and neither does the parse of any line. Every \<^verbatim>\<open>SaveToken\<close> of the parser comes
  directly after a \<^verbatim>\<open>ReadToken\<close>, which leaves the slot empty.
\<close>

theorem C9_single_pushback:
  "ParseExp n s \<noteq> Raises TokenAlreadySaved \<and>
   ReadE n s \<noteq> Raises TokenAlreadySaved \<and>
   ReadT n s \<noteq> Raises TokenAlreadySaved \<and>
   ReadC n s \<noteq> Raises TokenAlreadySaved \<and>
   ReadF n s \<noteq> Raises TokenAlreadySaved \<and>
   ReadNewFunc n s \<noteq> Raises TokenAlreadySaved \<and>
   ReadControlStructure n s \<noteq> Raises TokenAlreadySaved \<and>
   parse_line line \<noteq> Raises TokenAlreadySaved"
proof -
  have E: "ReadE m t \<noteq> Raises TokenAlreadySaved" for m t
    using no_double_pushback [of m] by blast
  have P: "ParseExp m t \<noteq> Raises TokenAlreadySaved" for m t
    using E by (auto simp: ParseExp_def CheckCommandToken_def ReadCommand_def Let_def split_def
        andThen_eq_Raises SaveToken_after_read)
  from P have "parse_line line \<noteq> Raises TokenAlreadySaved"
    by (simp add: parse_line_def Let_def)
  with P no_double_pushback [of n] show ?thesis by blast
qed

text \<open>
  Claim C10: the line \<^verbatim>\<open>(1+2\<close>, with no closing parenthesis, parses with no error to the same
  tree as \<^verbatim>\<open>(1+2)\<close>, the sum of 1 and 2. In general, after the opening parenthesis and the
  expression inside, \<^verbatim>\<open>ReadF\<close> reads one token and returns the expression whatever that token
  is.
\<close>

theorem C10_unclosed_parenthesis:
  "parse_line ''(1+2'' =
     Returns (NewCompoundExp CHR ''+'' (NewIntegerExp 1) (NewIntegerExp 2))
       \<lparr>tokens = [], savedToken = None\<rparr> \<and>
   parse_line ''(1+2)'' =
     Returns (NewCompoundExp CHR ''+'' (NewIntegerExp 1) (NewIntegerExp 2))
       \<lparr>tokens = [], savedToken = None\<rparr> \<and>
   (ReadToken s = (''('', s1) \<and> ReadE n s1 = Returns e s2 \<longrightarrow>
      ReadF (Suc n) s = Returns e (snd (ReadToken s2)))"
proof (intro conjI impI)
  show "parse_line ''(1+2'' =
     Returns (NewCompoundExp CHR ''+'' (NewIntegerExp 1) (NewIntegerExp 2))
       \<lparr>tokens = [], savedToken = None\<rparr>"
    by code_simp
  show "parse_line ''(1+2)'' =
     Returns (NewCompoundExp CHR ''+'' (NewIntegerExp 1) (NewIntegerExp 2))
       \<lparr>tokens = [], savedToken = None\<rparr>"
    by code_simp
next
  assume "ReadToken s = (''('', s1) \<and> ReadE n s1 = Returns e s2"
  then show "ReadF (Suc n) s = Returns e (snd (ReadToken s2))"
    by (simp add: ReadF.simps(2))
qed

text \<open>The tokens \<^verbatim>\<open>( 4 - x 5\<close>: the group is closed by no parenthesis.\<close>

theorem C10_unclosed_parenthesis_witness:
  "ReadF 6 \<lparr>tokens = [''('', ''4'', ''-'', ''x'', ''5''], savedToken = None\<rparr> =
     Returns (NewCompoundExp CHR ''-'' (NewIntegerExp 4) (NewIdentifierExp ''x''))
       \<lparr>tokens = [], savedToken = None\<rparr>"
proof -
  let ?s = "\<lparr>tokens = [''('', ''4'', ''-'', ''x'', ''5''], savedToken = None\<rparr>"
  let ?s1 = "\<lparr>tokens = [''4'', ''-'', ''x'', ''5''], savedToken = None\<rparr>"
  have 1: "ReadToken ?s = (''('', ?s1)" by (simp add: ReadToken_def)
  have 2: "ReadE 5 ?s1 = Returns (NewCompoundExp CHR ''-'' (NewIntegerExp 4) (NewIdentifierExp ''x''))
      \<lparr>tokens = [], savedToken = None\<rparr>"
    by code_simp
  have f: "(6::nat) = Suc 5" by simp
  show ?thesis
    unfolding f
    using C10_unclosed_parenthesis [of ?s ?s1 5] 1 2
    by (simp add: ReadToken_def)
qed

end
